theory Spec2Isabelle
  imports Complex_Main "HOL-Library.Sublist" "HOL-Library.AList" "HOL-Library.Multiset"
begin

section \<open>Go values\<close>

text \<open>
  Texts and file names are byte strings (\<open>string\<close> is \<open>char list\<close>, one \<open>char\<close> per byte).
  A Go \<open>map[K]V\<close> is an association list with distinct keys, read with \<open>map_of\<close> and
  written with \<open>AList.update\<close> and \<open>AList.delete\<close>. Go leaves the order in which \<open>range\<close>
  visits a map unspecified: every function that ranges over a map takes the order as a
  parameter \<open>rng\<close>, which turns the entries of the map into the sequence visited.

  \<open>float64\<close> holds the values the program can compute: the quotients of small
  non-negative integers, the constants \<open>-1\<close> and \<open>1.0\<close>, and the two special values a
  division by zero gives. \<open>Fin q\<close> stands for the double nearest to \<open>q\<close>, for \<open>q\<close> of
  magnitude below \<open>2^1024\<close>. The rounding is monotone, and two different quotients of
  integers below \<open>2^26\<close> never round to the same double, so comparisons of scores are
  exact on the rationals. Where the digits of the double itself matter, in
  \<open>truncateFloat\<close>, \<open>nearestDouble q\<close> gives its exact value: the multiple of the unit in
  the last place of \<open>q\<close> nearest to \<open>q\<close>, ties to the even significand. A binary64 has
  a significand of 53 bits and exponents from \<open>-1022\<close> to \<open>1023\<close>, with the subnormals
  below.
\<close>

datatype float64 = NaN | PosInf | Fin rat

definition float64_quot :: "nat \<Rightarrow> nat \<Rightarrow> float64" where
  \<comment> \<open>\<open>float64(a) / float64(b)\<close>: no panic on a zero divisor, \<open>0/0\<close> is NaN.\<close>
  "float64_quot a b =
     (if b = 0 then (if a = 0 then NaN else PosInf) else Fin (of_nat a / of_nat b))"

fun float64_gt :: "float64 \<Rightarrow> float64 \<Rightarrow> bool" where
  \<comment> \<open>Go's \<open>>\<close> on float64: every comparison with NaN is false.\<close>
  "float64_gt NaN _ = False"
| "float64_gt _ NaN = False"
| "float64_gt PosInf PosInf = False"
| "float64_gt PosInf (Fin _) = True"
| "float64_gt (Fin _) PosInf = False"
| "float64_gt (Fin a) (Fin b) = (b < a)"

fun roundHalfEven :: "rat \<Rightarrow> int" where
  "roundHalfEven q =
     (let f = \<lfloor>q\<rfloor>; d = q - of_int f in
      if d < 1 / 2 then f
      else if 1 / 2 < d then f + 1
      else if even f then f else f + 1)"

fun doublings :: "nat \<Rightarrow> rat \<Rightarrow> nat" where
  \<comment> \<open>How often \<open>a\<close> is doubled to reach \<open>1\<close>, at most \<open>n\<close> times.\<close>
  "doublings 0 a = 0"
| "doublings (Suc n) a = (if 1 \<le> a then 0 else Suc (doublings n (2 * a)))"

fun halvings :: "nat \<Rightarrow> rat \<Rightarrow> nat" where
  \<comment> \<open>How often \<open>a\<close> is halved to fall below \<open>2\<close>, at most \<open>n\<close> times.\<close>
  "halvings 0 a = 0"
| "halvings (Suc n) a = (if a < 2 then 0 else Suc (halvings n (a / 2)))"

definition ulp :: "rat \<Rightarrow> rat" where
  \<comment> \<open>The unit in the last place of a binary64 of magnitude \<open>a\<close>.\<close>
  "ulp a =
     (if a < 1 then 1 / 2 ^ (doublings 1022 a + 52) else 2 ^ halvings 1023 a / 2 ^ 52)"

definition nearestDouble :: "rat \<Rightarrow> rat" where
  "nearestDouble q =
     (let a = \<bar>q\<bar>; u = ulp a in sgn q * of_int (roundHalfEven (a / u)) * u)"

section \<open>Data model\<close>

record Template =
  Title :: string
  Nickname :: string
  Words :: "(string \<times> nat) list"

record Word =
  Text :: string
  Pos :: nat

record MatchResult =
  Template :: "Template option"
  Score :: float64
  ExtraWords :: "string list"
  MissingWords :: "string list"

record PkgInfo =
  Name :: string
  Dir :: string
  Root :: string
  ImportPath :: string
  Error :: "string option"

record LicenseInfo =
  Path :: string
  Score :: float64
  Template :: "Template option"
  ExtraWords :: "string list"
  MissingWords :: "string list"

record License =
  Package :: string
  LicenseInfos :: "LicenseInfo list"
  Err :: string

record truncLicense =
  Name :: string
  Confidence :: float64

record projectAndLicenses =
  Project :: string
  Licenses :: "truncLicense list"
  Error :: string

datatype failure = NilPointerDereference | IndexOutOfRange | SharedLicenseNoCommonPrefix
  \<comment> \<open>The first two are run-time panics; the third is the error \<open>groupLicenses\<close> returns
      (\<open>packages share the same license but not common prefix\<close>), fatal in
      \<open>pkgsToLicenses\<close>.\<close>

section \<open>Text normalizer and tokenizer\<close>

text \<open>
  \<open>bytes.ToLower\<close> lower-cases the letters \<open>A\<close> to \<open>Z\<close> of a text whose bytes are all below
  \<open>0x80\<close>, and maps any other text rune by rune through the Unicode tables of the Go
  library (\<open>bytes.Map(unicode.ToLower, data)\<close>, which among others takes \<open>U+0130\<close> to \<open>i\<close>
  and \<open>U+212A\<close> to \<open>k\<close>). These tables are not part of this program: the functions that
  normalize a text take that map as the parameter \<open>u\<close>, and what is proved of them holds
  for every \<open>u\<close>. The letters of the pattern \<open>reCopyright\<close> fold only with their ASCII
  capitals under \<open>(?i)\<close>, and the classes \<open>\s\<close>, \<open>\d\<close> and \<open>\w\<close> of Go's \<open>regexp\<close> are ASCII
  classes.
\<close>

definition toLower :: "char \<Rightarrow> char" where
  "toLower c =
     (case map_of (zip ''ABCDEFGHIJKLMNOPQRSTUVWXYZ'' ''abcdefghijklmnopqrstuvwxyz'') c of
        None \<Rightarrow> c
      | Some d \<Rightarrow> d)"

definition isASCII :: "string \<Rightarrow> bool" where
  "isASCII data = list_all (\<lambda>c. of_char c < (0x80 :: nat)) data"

definition bytes_ToLower :: "(string \<Rightarrow> string) \<Rightarrow> string \<Rightarrow> string" where
  "bytes_ToLower u data = (if isASCII data then map toLower data else u data)"

definition isSpace :: "char \<Rightarrow> bool" where
  \<comment> \<open>\<open>\s\<close>: tab, line feed, form feed, carriage return, space\<close>
  "isSpace c = (c \<in> set [CHR 0x09, CHR 0x0A, CHR 0x0C, CHR 0x0D, CHR '' ''])"

definition isDigit :: "char \<Rightarrow> bool" where
  "isDigit c = (c \<in> set ''0123456789'')"

definition isWordChar :: "char \<Rightarrow> bool" where
  \<comment> \<open>the class \<open>[\w']\<close> of \<open>reWords\<close>\<close>
  "isWordChar c =
     (isDigit c \<or> c \<in> set ''abcdefghijklmnopqrstuvwxyz'' \<or>
      c \<in> set ''ABCDEFGHIJKLMNOPQRSTUVWXYZ'' \<or> c = CHR ''_'' \<or> c = CHR 0x27)"

definition notNewline :: "char \<Rightarrow> bool" where
  \<comment> \<open>what \<open>.\<close> matches\<close>
  "notNewline c = (c \<noteq> CHR 0x0A)"

definition foldPrefix :: "string \<Rightarrow> string \<Rightarrow> string option" where
  \<comment> \<open>A literal (given in lower case) matched without regard to case at the start of
      \<open>s\<close>: what is left of \<open>s\<close>.\<close>
  "foldPrefix lit s =
     (if length lit \<le> length s \<and> map toLower (take (length lit) s) = lit
      then Some (drop (length lit) s) else None)"

definition marker_rest :: "string \<Rightarrow> string option" where
  \<comment> \<open>One of the three alternatives of the optional group: the copyright sign U+00A9 (bytes
      C2 A9), \<open>(c)\<close>, or \<open>\xC2\xA9\<close>, which Go reads as the two code points U+00C2 U+00A9
      (bytes C3 82 C2 A9; U+00E2, bytes C3 A2, is the other case of U+00C2).\<close>
  "marker_rest s =
     (if prefix [CHR 0xC2, CHR 0xA9] s then Some (drop 2 s)
      else
        (case foldPrefix ''(c)'' s of
           Some r \<Rightarrow> Some r
         | None \<Rightarrow>
             if prefix [CHR 0xC3, CHR 0x82, CHR 0xC2, CHR 0xA9] s \<or>
                prefix [CHR 0xC3, CHR 0xA2, CHR 0xC2, CHR 0xA9] s
             then Some (drop 4 s) else None))"

definition year_rest :: "string \<Rightarrow> string option" where
  \<comment> \<open>\<open>\s*(?:\d{4}|\[year\]).*\<close>: what follows the end of the line.\<close>
  "year_rest s =
     (let s' = dropWhile isSpace s in
      if 4 \<le> length s' \<and> list_all isDigit (take 4 s') then
        Some (dropWhile notNewline (drop 4 s'))
      else
        (case foldPrefix ''[year]'' s' of
           Some r \<Rightarrow> Some (dropWhile notNewline r)
         | None \<Rightarrow> None))"

definition reCopyright_at :: "string \<Rightarrow> string option" where
  \<comment> \<open>A match of \<open>reCopyright\<close> that begins at the start of \<open>s\<close>: what follows the match.
      The optional group is tried first with the marker, then without.\<close>
  "reCopyright_at s =
     (case foldPrefix ''copyright '' (dropWhile isSpace s) of
        None \<Rightarrow> None
      | Some s1 \<Rightarrow>
          (case marker_rest s1 of
             None \<Rightarrow> year_rest s1
           | Some s2 \<Rightarrow>
               (case year_rest s2 of
                  Some r \<Rightarrow> Some r
                | None \<Rightarrow> year_rest s1)))"

lemma dropWhile_shorter: "length (dropWhile P xs) \<le> length xs"
  by (induction xs) simp_all

lemma foldPrefix_length: "foldPrefix lit s = Some r \<Longrightarrow> length r + length lit = length s"
  by (auto simp: foldPrefix_def split: if_splits)

lemma year_rest_shorter: "year_rest s = Some r \<Longrightarrow> length r \<le> length s"
proof -
  assume a: "year_rest s = Some r"
  let ?s = "dropWhile isSpace s"
  have l: "length ?s \<le> length s" by (rule dropWhile_shorter)
  show ?thesis
  proof (cases "4 \<le> length ?s \<and> list_all isDigit (take 4 ?s)")
    case True
    then have "r = dropWhile notNewline (drop 4 ?s)" using a by (simp add: year_rest_def Let_def)
    moreover have "length (dropWhile notNewline (drop 4 ?s)) \<le> length (drop 4 ?s)"
      by (rule dropWhile_shorter)
    ultimately show ?thesis using l by simp
  next
    case False
    then obtain q where q: "foldPrefix ''[year]'' ?s = Some q" and r: "r = dropWhile notNewline q"
      using a by (auto simp: year_rest_def Let_def split: option.splits)
    have "length (dropWhile notNewline q) \<le> length q" by (rule dropWhile_shorter)
    then show ?thesis using r foldPrefix_length [OF q] l by simp
  qed
qed

lemma reCopyright_at_shorter: "reCopyright_at s = Some r \<Longrightarrow> length r < length s"
proof -
  assume a: "reCopyright_at s = Some r"
  then obtain s1 where s1: "foldPrefix ''copyright '' (dropWhile isSpace s) = Some s1"
    by (auto simp: reCopyright_at_def split: option.splits)
  have "length s1 + 10 = length (dropWhile isSpace s)"
    using foldPrefix_length [OF s1] by simp
  then have l1: "length s1 < length s"
    using dropWhile_shorter [of isSpace s] by simp
  have "year_rest s1 = Some r \<or> (\<exists>s2. marker_rest s1 = Some s2 \<and> year_rest s2 = Some r)"
    using a s1 by (auto simp: reCopyright_at_def split: option.splits)
  moreover have "length s2 \<le> length s1" if "marker_rest s1 = Some s2" for s2
    using that foldPrefix_length [of "''(c)''" s1 s2]
    by (auto simp: marker_rest_def split: if_splits option.splits)
  ultimately show ?thesis
    using l1 year_rest_shorter by (metis le_trans not_le)
qed

function reCopyright_ReplaceAll :: "string \<Rightarrow> string" where
  \<comment> \<open>\<open>reCopyright.ReplaceAll(data, nil)\<close>: the leftmost match is cut out, and the search
      goes on after it.\<close>
  "reCopyright_ReplaceAll [] = []"
| "reCopyright_ReplaceAll (c # cs) =
     (case reCopyright_at (c # cs) of
        Some rest \<Rightarrow> reCopyright_ReplaceAll rest
      | None \<Rightarrow> c # reCopyright_ReplaceAll cs)"
  by pat_completeness auto
termination
  by (relation "measure length") (auto dest: reCopyright_at_shorter)

definition cleanLicenseData :: "(string \<Rightarrow> string) \<Rightarrow> string \<Rightarrow> string" where
  "cleanLicenseData u data = reCopyright_ReplaceAll (bytes_ToLower u data)"

fun findAll_loop :: "string \<Rightarrow> string \<Rightarrow> string list" where
  \<comment> \<open>\<open>cur\<close> is the run of word characters read so far.\<close>
  "findAll_loop cur [] = (if cur = [] then [] else [cur])"
| "findAll_loop cur (c # cs) =
     (if isWordChar c then findAll_loop (cur @ [c]) cs
      else (if cur = [] then [] else [cur]) @ findAll_loop [] cs)"

definition reWords_FindAll :: "string \<Rightarrow> string list" where
  \<comment> \<open>\<open>reWords.FindAll(data, -1)\<close>: the maximal runs of word characters and apostrophes.\<close>
  "reWords_FindAll data = findAll_loop [] data"

fun words_loop :: "nat \<Rightarrow> string list \<Rightarrow> (string \<times> nat) list \<Rightarrow> (string \<times> nat) list" where
  "words_loop i [] words = words"
| "words_loop i (m # ms) words =
     words_loop (i + 1) ms (if map_of words m = None then AList.update m i words else words)"

definition makeWordSet :: "(string \<Rightarrow> string) \<Rightarrow> string \<Rightarrow> (string \<times> nat) list" where
  "makeWordSet u data = words_loop 0 (reWords_FindAll (cleanLicenseData u data)) []"

section \<open>Template matcher\<close>

definition sortAndReturnWords :: "Word list \<Rightarrow> string list" where
  \<comment> \<open>\<open>sort.Sort\<close> is not stable; on words with different positions, the only ones it is
      called with, every sort gives the same result.\<close>
  "sortAndReturnWords words = map Text (sort_key Pos words)"

definition extraOf ::
  "((string \<times> nat) list \<Rightarrow> (string \<times> nat) list) \<Rightarrow> (string \<times> nat) list \<Rightarrow> Template \<Rightarrow> Word list" where
  "extraOf rng words t =
     map (\<lambda>(w, pos). \<lparr>Text = w, Pos = pos\<rparr>)
       (filter (\<lambda>(w, pos). map_of (Words t) w = None) (rng words))"

definition commonOf ::
  "((string \<times> nat) list \<Rightarrow> (string \<times> nat) list) \<Rightarrow> (string \<times> nat) list \<Rightarrow> Template \<Rightarrow> nat" where
  "commonOf rng words t =
     length (filter (\<lambda>(w, pos). map_of (Words t) w \<noteq> None) (rng words))"

definition missingOf ::
  "((string \<times> nat) list \<Rightarrow> (string \<times> nat) list) \<Rightarrow> (string \<times> nat) list \<Rightarrow> Template \<Rightarrow> Word list" where
  "missingOf rng words t =
     map (\<lambda>(w, pos). \<lparr>Text = w, Pos = pos\<rparr>)
       (filter (\<lambda>(w, pos). map_of words w = None) (rng (Words t)))"

definition scoreOf ::
  "((string \<times> nat) list \<Rightarrow> (string \<times> nat) list) \<Rightarrow> (string \<times> nat) list \<Rightarrow> Template \<Rightarrow> float64" where
  \<comment> \<open>\<open>2 * float64(common) / (float64(len(words)) + float64(len(t.Words)))\<close>\<close>
  "scoreOf rng words t =
     float64_quot (2 * commonOf rng words t) (length words + length (Words t))"

fun templates_loop ::
  "((string \<times> nat) list \<Rightarrow> (string \<times> nat) list) \<Rightarrow> (string \<times> nat) list \<Rightarrow> Template list \<Rightarrow>
   float64 \<times> Template option \<times> Word list \<times> Word list \<Rightarrow>
   float64 \<times> Template option \<times> Word list \<times> Word list" where
  \<comment> \<open>The state is \<open>bestScore\<close>, \<open>bestTemplate\<close>, \<open>bestExtra\<close> and \<open>bestMissing\<close>.\<close>
  "templates_loop rng words [] best = best"
| "templates_loop rng words (t # ts) (bestScore, bestTemplate, bestExtra, bestMissing) =
     (let score = scoreOf rng words t in
      if float64_gt score bestScore then
        templates_loop rng words ts
          (score, Some t, extraOf rng words t, missingOf rng words t)
      else templates_loop rng words ts (bestScore, bestTemplate, bestExtra, bestMissing))"

definition matchTemplates ::
  "((string \<times> nat) list \<Rightarrow> (string \<times> nat) list) \<Rightarrow> (string \<Rightarrow> string) \<Rightarrow> string \<Rightarrow>
   Template list \<Rightarrow> MatchResult" where
  "matchTemplates rng u license templates =
     (let words = makeWordSet u license;
          (bestScore, bestTemplate, bestExtra, bestMissing) =
             templates_loop rng words templates (Fin (- 1), None, [], [])
      in \<lparr>MatchResult.Template = bestTemplate, MatchResult.Score = bestScore,
          MatchResult.ExtraWords = sortAndReturnWords bestExtra,
          MatchResult.MissingWords = sortAndReturnWords bestMissing\<rparr>)"

definition templateOf :: "(string \<Rightarrow> string) \<Rightarrow> string \<Rightarrow> string \<Rightarrow> string \<Rightarrow> Template" where
  \<comment> \<open>What \<open>parseTemplate\<close> builds from a document with this title, nickname and body.\<close>
  "templateOf u title nickname body =
     \<lparr>Title = title, Nickname = nickname, Words = makeWordSet u body\<rparr>"

fun firstIndex :: "'a list \<Rightarrow> 'a \<Rightarrow> nat" where
  "firstIndex [] x = 0"
| "firstIndex (y # ys) x = (if x = y then 0 else Suc (firstIndex ys x))"

definition firstPos :: "(string \<Rightarrow> string) \<Rightarrow> string \<Rightarrow> string \<Rightarrow> nat" where
  \<comment> \<open>Where the word \<open>w\<close> first occurs among the tokens of a text.\<close>
  "firstPos u text w = firstIndex (reWords_FindAll (cleanLicenseData u text)) w"

definition vocabulary :: "(string \<times> nat) list \<Rightarrow> string set" where
  "vocabulary words = fst ` set words"

definition dice :: "string set \<Rightarrow> string set \<Rightarrow> rat" where
  "dice A B = 2 * of_nat (card (A \<inter> B)) / (of_nat (card A) + of_nat (card B))"

section \<open>Project names and the two output lists\<close>

fun strings_Index :: "string \<Rightarrow> string \<Rightarrow> nat option" where
  \<comment> \<open>\<open>strings.Index(s, v)\<close>: where \<open>v\<close> first occurs in \<open>s\<close>; \<open>None\<close> is Go's \<open>-1\<close>.\<close>
  "strings_Index [] v = (if v = [] then Some 0 else None)"
| "strings_Index (c # cs) v =
     (if prefix v (c # cs) then Some 0 else map_option Suc (strings_Index cs v))"

definition removeVendor :: "string \<Rightarrow> string" where
  "removeVendor s =
     (let v = ''/vendor/'' in
      case strings_Index s v of
        None \<Rightarrow> s
      | Some i \<Rightarrow> drop (i + length v) s)"

fun truncateFloat :: "float64 \<Rightarrow> float64" where
  \<comment> \<open>\<open>fmt.Sprintf("%.3f", f)\<close> prints the decimal with three digits after the point
      nearest to the double \<open>f\<close> (ties to even), and \<open>strconv.ParseFloat\<close> reads it back: the
      double of \<open>1/400\<close> lies above \<open>0.0025\<close> and gives \<open>0.003\<close>.\<close>
  "truncateFloat (Fin q) = Fin (of_int (roundHalfEven (nearestDouble q * 1000)) / 1000)"
| "truncateFloat NaN = NaN"
| "truncateFloat PosInf = PosInf"

fun tLicenses_loop :: "truncLicense list \<Rightarrow> LicenseInfo list \<Rightarrow> failure + truncLicense list" where
  \<comment> \<open>The second loop over \<open>l.LicenseInfos\<close>: \<open>li.Template.Title\<close> panics on a nil
      template.\<close>
  "tLicenses_loop tLicenses [] = Inr tLicenses"
| "tLicenses_loop tLicenses (li # lis) =
     (case Template li of
        None \<Rightarrow> Inl NilPointerDereference
      | Some t \<Rightarrow>
          tLicenses_loop
            (if Title t \<noteq> [] then tLicenses @ [\<lparr>Name = Title t, Confidence = Score li\<rparr>]
             else tLicenses) lis)"

fun licenses_loop ::
  "projectAndLicenses list \<Rightarrow> projectAndLicenses list \<Rightarrow> License list \<Rightarrow>
   failure + (projectAndLicenses list \<times> projectAndLicenses list)" where
  "licenses_loop c e [] = Inr (c, e)"
| "licenses_loop c e (l # ls) =
     (if Err l \<noteq> [] then
        licenses_loop c
          (e @ [\<lparr>Project = removeVendor (Package l), Licenses = [], Error = Err l\<rparr>]) ls
      else
        let nt = length (filter (\<lambda>li. Template li = None) (LicenseInfos l)) in
        if length (LicenseInfos l) = nt then
          licenses_loop c
            (e @ [\<lparr>Project = removeVendor (Package l), Licenses = [],
                   Error = ''No license detected''\<rparr>]) ls
        else
          (case tLicenses_loop [] (LicenseInfos l) of
             Inl p \<Rightarrow> Inl p
           | Inr tLicenses \<Rightarrow>
               licenses_loop
                 (c @ [\<lparr>Project = removeVendor (Package l), Licenses = tLicenses, Error = []\<rparr>])
                 e ls))"

definition licensesToProjectAndLicenses ::
  "License list \<Rightarrow> failure + (projectAndLicenses list \<times> projectAndLicenses list)" where
  "licensesToProjectAndLicenses licenses = licenses_loop [] [] licenses"

definition confident :: "License \<Rightarrow> bool" where
  \<comment> \<open>The packages that reach the confident list: no error, and not all templates nil.\<close>
  "confident l = (Err l = [] \<and> \<not> list_all (\<lambda>li. Template li = None) (LicenseInfos l))"

section \<open>Grouping by license path\<close>

fun split_loop :: "string \<Rightarrow> string \<Rightarrow> string list" where
  "split_loop cur [] = [cur]"
| "split_loop cur (c # cs) =
     (if c = CHR ''/'' then cur # split_loop [] cs else split_loop (cur @ [c]) cs)"

definition strings_Split :: "string \<Rightarrow> string list" where
  \<comment> \<open>\<open>strings.Split(s, "/")\<close>: never empty, \<open>Split("")\<close> is one empty part.\<close>
  "strings_Split s = split_loop [] s"

fun strings_Join :: "string list \<Rightarrow> string" where
  \<comment> \<open>\<open>strings.Join(parts, "/")\<close>\<close>
  "strings_Join [] = []"
| "strings_Join [p] = p"
| "strings_Join (p # q # ps) = p @ ''/'' @ strings_Join (q # ps)"

text \<open>
  The prefix tree of \<open>longestCommonPrefix\<close>: a node is its \<open>Name\<close>, its \<open>Children\<close> (a map
  from part to node) and \<open>Shared\<close>, the number of import paths that pass through it.
\<close>

datatype Node = Node string "(string \<times> Node) list" nat

fun insertParts :: "string list \<Rightarrow> Node \<Rightarrow> Node" where
  \<comment> \<open>The inner loop over the parts of one import path, from node \<open>n\<close> down.\<close>
  "insertParts [] n = n"
| "insertParts (part # parts) (Node name children shared) =
     (let c = (case map_of children part of None \<Rightarrow> Node part [] 0 | Some c \<Rightarrow> c);
          c' = (case c of Node cname cchildren cshared \<Rightarrow>
                  insertParts parts (Node cname cchildren (cshared + 1)))
      in Node name (AList.update part c' children) shared)"

fun insertAll :: "License list \<Rightarrow> Node \<Rightarrow> Node" where
  "insertAll [] n = n"
| "insertAll (l # ls) n = insertAll ls (insertParts (strings_Split (Package l)) n)"

fun descend :: "nat \<Rightarrow> Node \<Rightarrow> string list" where
  \<comment> \<open>The final loop: follow only children while there is exactly one, and collect the
      names of those every import path passes through.\<close>
  "descend n (Node name [(part, Node cname cchildren cshared)] shared) =
     (if cshared = n then [cname] else []) @ descend n (Node cname cchildren cshared)"
| "descend n _ = []"

definition commonParts :: "License list \<Rightarrow> string list" where
  \<comment> \<open>The slice \<open>prefix\<close> at the end of \<open>longestCommonPrefix\<close>.\<close>
  "commonParts licenses =
     descend (length licenses) (insertAll licenses (Node [] [] (length licenses)))"

definition longestCommonPrefix :: "License list \<Rightarrow> string" where
  "longestCommonPrefix licenses = strings_Join (commonParts licenses)"

type_synonym paths = "(string \<times> License list) list"

fun paths_infos :: "License \<Rightarrow> LicenseInfo list \<Rightarrow> paths \<Rightarrow> paths" where
  "paths_infos l [] paths = paths"
| "paths_infos l (li # lis) paths =
     (if Path li = [] then paths_infos l lis paths
      else paths_infos l lis
             (AList.update (Path li)
                ((case map_of paths (Path li) of None \<Rightarrow> [] | Some v \<Rightarrow> v) @ [l]) paths))"

fun paths_loop :: "License list \<Rightarrow> paths \<Rightarrow> paths" where
  "paths_loop [] paths = paths"
| "paths_loop (l # ls) paths = paths_loop ls (paths_infos l (LicenseInfos l) paths)"

fun prefix_loop :: "paths \<Rightarrow> paths \<Rightarrow> failure + paths" where
  \<comment> \<open>\<open>for k, v := range paths\<close>: the first argument is what is left to visit.\<close>
  "prefix_loop [] paths = Inr paths"
| "prefix_loop ((k, v) # rest) paths =
     (if length v \<le> 1 then prefix_loop rest paths
      else
        let prefix = longestCommonPrefix v in
        if prefix = [] then Inl SharedLicenseNoCommonPrefix
        else prefix_loop rest (AList.update k [(hd v)\<lparr>Package := prefix\<rparr>] paths))"

fun kept_infos ::
  "License \<Rightarrow> LicenseInfo list \<Rightarrow> License list \<times> paths \<times> string list \<Rightarrow>
   failure + (License list \<times> paths \<times> string list)" where
  \<comment> \<open>The state is \<open>kept\<close>, \<open>paths\<close> and the keys of \<open>seen\<close>; \<open>v[0]\<close> panics on an empty
      slice.\<close>
  "kept_infos l [] st = Inr st"
| "kept_infos l (li # lis) (kept, paths, seen) =
     (if Path li = [] then kept_infos l lis (kept @ [l], paths, seen)
      else
        (case map_of paths (Path li) of
           None \<Rightarrow> kept_infos l lis (kept, paths, seen)
         | Some [] \<Rightarrow> Inl IndexOutOfRange
         | Some (v0 # _) \<Rightarrow>
             if Package v0 \<notin> set seen then
               kept_infos l lis
                 (kept @ [v0], AList.delete (Path li) paths, Package v0 # seen)
             else kept_infos l lis (kept, paths, seen)))"

fun kept_loop ::
  "License list \<Rightarrow> License list \<times> paths \<times> string list \<Rightarrow>
   failure + (License list \<times> paths \<times> string list)" where
  "kept_loop [] st = Inr st"
| "kept_loop (l # ls) (kept, paths, seen) =
     (if LicenseInfos l = [] then kept_loop ls (kept @ [l], paths, seen)
      else
        (case kept_infos l (LicenseInfos l) (kept, paths, seen) of
           Inl f \<Rightarrow> Inl f
         | Inr st \<Rightarrow> kept_loop ls st))"

definition groupLicenses :: "(paths \<Rightarrow> paths) \<Rightarrow> License list \<Rightarrow> failure + License list" where
  "groupLicenses rng licenses =
     (let paths = paths_loop licenses [] in
      case prefix_loop (rng paths) paths of
        Inl f \<Rightarrow> Inl f
      | Inr paths' \<Rightarrow>
          (case kept_loop licenses ([], paths', []) of
             Inl f \<Rightarrow> Inl f
           | Inr (kept, _, _) \<Rightarrow> Inr kept))"


section \<open>Overrides\<close>

type_synonym fplm = "(string \<times> string list) list"

fun fplm_names :: "string \<Rightarrow> truncLicense list \<Rightarrow> fplm \<Rightarrow> fplm" where
  "fplm_names project [] fplm = fplm"
| "fplm_names project (t # ts) fplm =
     fplm_names project ts
       (AList.update project
          ((case map_of fplm project of None \<Rightarrow> [] | Some l \<Rightarrow> l) @ [Name t]) fplm)"

fun fplm_loop :: "projectAndLicenses list \<Rightarrow> fplm \<Rightarrow> fplm" where
  "fplm_loop [] fplm = fplm"
| "fplm_loop (pl # pls) fplm = fplm_loop pls (fplm_names (Project pl) (Licenses pl) fplm)"

definition forced :: "string list \<Rightarrow> truncLicense list" where
  "forced names = map (\<lambda>name. \<lparr>Name = name, Confidence = Fin 1\<rparr>) names"

fun detected_loop ::
  "projectAndLicenses list \<Rightarrow> projectAndLicenses list \<times> truncLicense list \<times> fplm \<Rightarrow>
   projectAndLicenses list \<times> truncLicense list \<times> fplm" where
  \<comment> \<open>The loop over \<open>c\<close>; the state is \<open>pls\<close>, \<open>tls\<close> and \<open>fplm\<close>. \<open>tls\<close> is declared
      before the loop and only ever appended to.\<close>
  "detected_loop [] st = st"
| "detected_loop (pl # c) (pls, tls, fplm) =
     (case map_of fplm (Project pl) of
        Some l \<Rightarrow>
          let tls' = tls @ forced l in
          detected_loop c
            (pls @ [\<lparr>Project = Project pl, Licenses = tls', Error = []\<rparr>], tls',
             AList.delete (Project pl) fplm)
      | None \<Rightarrow> detected_loop c (pls @ [pl], tls, fplm))"

fun undetected_loop ::
  "fplm \<Rightarrow> projectAndLicenses list \<times> truncLicense list \<Rightarrow>
   projectAndLicenses list \<times> truncLicense list" where
  \<comment> \<open>\<open>for proj, l := range fplm\<close>, over what the first loop left in \<open>fplm\<close>.\<close>
  "undetected_loop [] st = st"
| "undetected_loop ((proj, l) # rest) (pls, tls) =
     (let tls' = tls @ forced l in
      undetected_loop rest (pls @ [\<lparr>Project = proj, Licenses = tls', Error = []\<rparr>], tls'))"

definition pkgsToLicenses ::
  "(paths \<Rightarrow> paths) \<Rightarrow> (fplm \<Rightarrow> fplm) \<Rightarrow> projectAndLicenses list \<Rightarrow> License list \<Rightarrow>
   failure + (projectAndLicenses list \<times> projectAndLicenses list)" where
  \<comment> \<open>\<open>overrides\<close> is the override document as \<open>json.Unmarshal\<close> decodes it and \<open>listed\<close>
      what \<open>listLicenses\<close> returns (it runs \<open>go list\<close> and reads the files); \<open>log.Fatal\<close> is
      the failure.\<close>
  "pkgsToLicenses rngp rngf overrides listed =
     (let fplm = fplm_loop overrides [] in
      case groupLicenses rngp listed of
        Inl f \<Rightarrow> Inl f
      | Inr licenses \<Rightarrow>
          (case licensesToProjectAndLicenses licenses of
             Inl f \<Rightarrow> Inl f
           | Inr (c, e) \<Rightarrow>
               let (pls, tls, fplm') = detected_loop c ([], [], fplm);
                   (pls', tls') = undetected_loop (rngf fplm') (pls, []);
                   ne = filter (\<lambda>pl. map_of fplm' (Project pl) = None) e
               in Inr (pls', ne)))"

section \<open>The prefix tree, read back\<close>

text \<open>
  \<open>lookup\<close> follows a sequence of parts from a node, \<open>passes\<close> is the \<open>Shared\<close> counter of the
  node reached (0 when there is none), \<open>named\<close> says that every child is stored under its
  own name, and \<open>through\<close> counts the import paths that begin with the parts \<open>q\<close>.
\<close>

fun shared :: "Node \<Rightarrow> nat" where "shared (Node name children s) = s"






section \<open>Grouping, stated\<close>












text \<open>
  \<open>lift X Z m\<close> is what a match attempt gives on a text followed by \<open>X\<close>, when \<open>m\<close> is what it
  gives on the text alone and the line of \<open>X\<close> ends where \<open>Z\<close> begins: a match that reached
  the end of the text runs on to \<open>Z\<close>.
\<close>

definition lift :: "string \<Rightarrow> string \<Rightarrow> string option \<Rightarrow> string option" where
  "lift X Z m = (case m of None \<Rightarrow> None | Some r \<Rightarrow> if r = [] then Some Z else Some (r @ X))"

section \<open>Properties of the output lists\<close>

lemma tLicenses_loop_acc:
  "tLicenses_loop acc lis =
     (case tLicenses_loop [] lis of Inl p \<Rightarrow> Inl p | Inr r \<Rightarrow> Inr (acc @ r))"
proof (induction lis arbitrary: acc)
  case Nil
  show ?case by simp
next
  case (Cons li lis)
  show ?case
  proof (cases "Template li")
    case None
    then show ?thesis by simp
  next
    case (Some t)
    show ?thesis
      using Some Cons.IH [of "acc @ [\<lparr>Name = Title t, Confidence = Score li\<rparr>]"]
        Cons.IH [of "[\<lparr>Name = Title t, Confidence = Score li\<rparr>]"] Cons.IH [of acc]
      by (simp split: sum.splits)
  qed
qed


lemma strings_Index_None: "strings_Index s v = None \<longleftrightarrow> \<not> sublist v s"
proof (induction s)
  case Nil
  show ?case by simp
next
  case (Cons c cs)
  show ?case using Cons.IH by (auto simp: sublist_Cons_right)
qed

lemma strings_Index_first:
  "v \<noteq> [] \<Longrightarrow> \<not> sublist v (a @ butlast v) \<Longrightarrow> strings_Index (a @ v @ b) v = Some (length a)"
proof (induction a)
  case Nil
  then show ?case by (cases v) auto
next
  case (Cons c a)
  have n1: "\<not> prefix v ((c # a) @ butlast v)"
    using Cons.prems(2) by (meson sublist_def prefix_imp_sublist)
  have "\<not> prefix v (c # a @ v @ b)"
  proof
    assume p: "prefix v (c # a @ v @ b)"
    have "length v \<le> length ((c # a) @ butlast v)" using Cons.prems(1) by (cases v rule: rev_cases) auto
    moreover have "(c # a @ v @ b) = ((c # a) @ butlast v) @ (last v # b)" using Cons.prems(1) by simp
    ultimately have "prefix v ((c # a) @ butlast v)" using p
      by (metis prefix_length_prefix prefixI)
    with n1 show False by simp
  qed
  moreover have "\<not> sublist v (a @ butlast v)" using Cons.prems(2) by (auto simp: sublist_Cons_right)
  ultimately show ?case using Cons.IH Cons.prems(1) by simp
qed

lemma removeVendor_absent: "\<not> sublist ''/vendor/'' s \<Longrightarrow> removeVendor s = s"
  using strings_Index_None [of s "''/vendor/''"] by (simp add: removeVendor_def)

lemma removeVendor_first:
  "\<not> sublist ''/vendor/'' (a @ ''/vendor'') \<Longrightarrow> removeVendor (a @ ''/vendor/'' @ b) = b"
  using strings_Index_first [of "''/vendor/''" a b] by (simp add: removeVendor_def)

lemma licenses_loop_acc:
  "licenses_loop c e ls =
     (case licenses_loop [] [] ls of Inl p \<Rightarrow> Inl p | Inr (c', e') \<Rightarrow> Inr (c @ c', e @ e'))"
proof (induction ls arbitrary: c e)
  case Nil
  show ?case by simp
next
  case (Cons l ls)
  have IH: "\<And>c e. licenses_loop c e ls =
     (case licenses_loop [] [] ls of Inl p \<Rightarrow> Inl p | Inr (c', e') \<Rightarrow> Inr (c @ c', e @ e'))"
    by (rule Cons.IH)
  show ?case
  proof (cases "Err l \<noteq> []")
    case True
    then show ?thesis
      by (simp add: IH [of c "e @ _"] IH [of "[]" "[_]"] split: sum.splits)
  next
    case noerr: False
    show ?thesis
    proof (cases "length (LicenseInfos l) = length (filter (\<lambda>li. Template li = None) (LicenseInfos l))")
      case True
      then show ?thesis using noerr
        by (simp add: IH [of c "e @ _"] IH [of "[]" "[_]"] split: sum.splits)
    next
      case False
      then show ?thesis using noerr
        by (simp add: IH [of "c @ _" e] IH [of "[_]" "[]"] split: sum.splits)
    qed
  qed
qed

lemma licenses_loop_append:
  "licenses_loop c e (xs @ ys) =
     (case licenses_loop c e xs of Inl p \<Rightarrow> Inl p | Inr (c1, e1) \<Rightarrow> licenses_loop c1 e1 ys)"
  by (induction xs arbitrary: c e) (simp_all add: Let_def split: sum.splits)

lemma licensesToProjectAndLicenses_append:
  "licensesToProjectAndLicenses (xs @ ys) =
     (case licensesToProjectAndLicenses xs of
        Inl p \<Rightarrow> Inl p
      | Inr (c1, e1) \<Rightarrow>
          (case licensesToProjectAndLicenses ys of
             Inl p \<Rightarrow> Inl p
           | Inr (c2, e2) \<Rightarrow> Inr (c1 @ c2, e1 @ e2)))"
proof (cases "licenses_loop [] [] xs")
  case (Inl p)
  then show ?thesis
    by (simp add: licensesToProjectAndLicenses_def licenses_loop_append)
next
  case (Inr r)
  obtain c1 e1 where r: "r = (c1, e1)" by (cases r)
  have "licenses_loop [] [] (xs @ ys) = licenses_loop c1 e1 ys"
    using Inr r by (simp add: licenses_loop_append)
  also have "\<dots> = (case licenses_loop [] [] ys of
                      Inl p \<Rightarrow> Inl p | Inr (c2, e2) \<Rightarrow> Inr (c1 @ c2, e1 @ e2))"
    by (rule licenses_loop_acc)
  finally show ?thesis
    using Inr r by (simp add: licensesToProjectAndLicenses_def)
qed


lemma filter_all_length: "(length xs = length (filter P xs)) = list_all P xs"
proof (induction xs)
  case Nil
  show ?case by simp
next
  case (Cons x xs)
  show ?case
    using Cons.IH length_filter_le [of P xs] by (auto simp del: length_filter_le)
qed


lemma licenses_loop_projects:
  "licenses_loop c e ls = Inr (c', e') \<Longrightarrow>
     map Project c' = map Project c @ map (\<lambda>l. removeVendor (Package l)) (filter confident ls) \<and>
     map Project e' =
       map Project e @ map (\<lambda>l. removeVendor (Package l)) (filter (\<lambda>l. \<not> confident l) ls)"
proof (induction ls arbitrary: c e)
  case Nil
  then show ?case by simp
next
  case (Cons l ls)
  show ?case
  proof (cases "confident l")
    case True
    then obtain tls where t: "tLicenses_loop [] (LicenseInfos l) = Inr tls"
      and r: "licenses_loop (c @ [\<lparr>Project = removeVendor (Package l), Licenses = tls, Error = []\<rparr>])
                e ls = Inr (c', e')"
      using Cons.prems
      by (auto simp: confident_def filter_all_length Let_def split: sum.splits)
    show ?thesis using Cons.IH [OF r] True by simp
  next
    case False
    then obtain msg where
      r: "licenses_loop c (e @ [\<lparr>Project = removeVendor (Package l), Licenses = [], Error = msg\<rparr>])
            ls = Inr (c', e')"
      using Cons.prems
      by (auto simp: confident_def filter_all_length Let_def split: if_splits)
    show ?thesis using Cons.IH [OF r] False by simp
  qed
qed

text \<open>
  C9. Every project name of the confident list and of the error list is \<open>removeVendor\<close> of
  the import path of the package it was made from: the confident list holds the packages
  with no error and some matched template, the error list all the others, both in the
  order of the input. \<open>removeVendor\<close> leaves a path without \<open>/vendor/\<close> unchanged and
  otherwise returns what follows the first occurrence of \<open>/vendor/\<close>.
\<close>

theorem project_names_removeVendor:
  "licensesToProjectAndLicenses licenses = Inr (c, e) \<Longrightarrow>
     map Project c = map (\<lambda>l. removeVendor (Package l)) (filter confident licenses) \<and>
     map Project e =
       map (\<lambda>l. removeVendor (Package l)) (filter (\<lambda>l. \<not> confident l) licenses) \<and>
     (\<forall>s. \<not> sublist ''/vendor/'' s \<longrightarrow> removeVendor s = s) \<and>
     (\<forall>a b. \<not> sublist ''/vendor/'' (a @ ''/vendor'') \<longrightarrow>
        removeVendor (a @ ''/vendor/'' @ b) = b)"
  using licenses_loop_projects [of "[]" "[]" licenses c e] removeVendor_absent removeVendor_first
  unfolding licensesToProjectAndLicenses_def by simp

lemma vendor_example: "\<not> sublist ''/vendor/'' ''a/vendor''"
  by (simp add: sublist_Cons_right)

theorem project_names_removeVendor_witness:
  "licensesToProjectAndLicenses
     [\<lparr>Package = ''a/vendor/b/vendor/c'', LicenseInfos = [], Err = ''boom''\<rparr>,
      \<lparr>Package = ''d/e'',
       LicenseInfos = [\<lparr>Path = ''d/LICENSE'', Score = Fin 1,
                        Template = Some \<lparr>Title = ''MIT License'', Nickname = ''MIT'', Words = []\<rparr>,
                        ExtraWords = [], MissingWords = []\<rparr>],
       Err = []\<rparr>]
   = Inr ([\<lparr>Project = ''d/e'', Licenses = [\<lparr>Name = ''MIT License'', Confidence = Fin 1\<rparr>],
            Error = []\<rparr>],
          [\<lparr>Project = ''b/vendor/c'', Licenses = [], Error = ''boom''\<rparr>]) \<and>
   removeVendor ''a/vendor/b/vendor/c'' = ''b/vendor/c'' \<and> removeVendor ''d/e'' = ''d/e''"
proof -
  let ?ls = "[\<lparr>Package = ''a/vendor/b/vendor/c'', LicenseInfos = [], Err = ''boom''\<rparr>,
      \<lparr>Package = ''d/e'',
       LicenseInfos = [\<lparr>Path = ''d/LICENSE'', Score = Fin 1,
                        Template = Some \<lparr>Title = ''MIT License'', Nickname = ''MIT'', Words = []\<rparr>,
                        ExtraWords = [], MissingWords = []\<rparr>],
       Err = []\<rparr>]"
  let ?c = "[\<lparr>Project = ''d/e'', Licenses = [\<lparr>Name = ''MIT License'', Confidence = Fin 1\<rparr>],
            Error = []\<rparr>]"
  let ?e = "[\<lparr>Project = ''b/vendor/c'', Licenses = [], Error = ''boom''\<rparr>]"
  have run: "licensesToProjectAndLicenses ?ls = Inr (?c, ?e)"
    by (simp add: licensesToProjectAndLicenses_def removeVendor_def)
  have "\<forall>a b. \<not> sublist ''/vendor/'' (a @ ''/vendor'') \<longrightarrow>
          removeVendor (a @ ''/vendor/'' @ b) = b"
    using project_names_removeVendor [OF run] by blast
  then have "\<not> sublist ''/vendor/'' (''a'' @ ''/vendor'') \<longrightarrow>
          removeVendor (''a'' @ ''/vendor/'' @ ''b/vendor/c'') = ''b/vendor/c''"
    by blast
  then have "removeVendor ''a/vendor/b/vendor/c'' = ''b/vendor/c''"
    using vendor_example by simp
  moreover have "removeVendor ''d/e'' = ''d/e''"
    by (simp add: removeVendor_def)
  ultimately show ?thesis using run by simp
qed


lemma tLicenses_loop_all_matched:
  "list_all (\<lambda>li. Template li \<noteq> None) lis \<Longrightarrow>
   tLicenses_loop [] lis =
     Inr (map (\<lambda>li. \<lparr>Name = Title (the (Template li)), Confidence = Score li\<rparr>)
            (filter (\<lambda>li. Title (the (Template li)) \<noteq> []) lis))"
proof (induction lis)
  case Nil
  show ?case by simp
next
  case (Cons li lis)
  then obtain t where t: "Template li = Some t" by auto
  have rest: "tLicenses_loop [] lis =
     Inr (map (\<lambda>li. \<lparr>Name = Title (the (Template li)), Confidence = Score li\<rparr>)
            (filter (\<lambda>li. Title (the (Template li)) \<noteq> []) lis))"
    using Cons by simp
  show ?case
    using t rest tLicenses_loop_acc [of "[\<lparr>Name = Title t, Confidence = Score li\<rparr>]" lis]
    by simp
qed

lemma licensesToProjectAndLicenses_single:
  assumes "Err l = []"
  shows "list_all (\<lambda>li. Template li = None) (LicenseInfos l) \<Longrightarrow>
         licensesToProjectAndLicenses [l] =
           Inr ([], [\<lparr>Project = removeVendor (Package l), Licenses = [],
                       Error = ''No license detected''\<rparr>])"
    and "LicenseInfos l \<noteq> [] \<Longrightarrow> list_all (\<lambda>li. Template li \<noteq> None) (LicenseInfos l) \<Longrightarrow>
         licensesToProjectAndLicenses [l] =
           Inr ([\<lparr>Project = removeVendor (Package l),
                   Licenses = map (\<lambda>li. \<lparr>Name = Title (the (Template li)), Confidence = Score li\<rparr>)
                     (filter (\<lambda>li. Title (the (Template li)) \<noteq> []) (LicenseInfos l)),
                   Error = []\<rparr>], [])"
proof -
  show "licensesToProjectAndLicenses [l] =
           Inr ([], [\<lparr>Project = removeVendor (Package l), Licenses = [],
                       Error = ''No license detected''\<rparr>])"
    if "list_all (\<lambda>li. Template li = None) (LicenseInfos l)"
    using that assms filter_all_length [of "LicenseInfos l" "\<lambda>li. Template li = None"]
    by (simp add: licensesToProjectAndLicenses_def)
  show "licensesToProjectAndLicenses [l] =
           Inr ([\<lparr>Project = removeVendor (Package l),
                   Licenses = map (\<lambda>li. \<lparr>Name = Title (the (Template li)), Confidence = Score li\<rparr>)
                     (filter (\<lambda>li. Title (the (Template li)) \<noteq> []) (LicenseInfos l)),
                   Error = []\<rparr>], [])"
    if ne: "LicenseInfos l \<noteq> []" and all: "list_all (\<lambda>li. Template li \<noteq> None) (LicenseInfos l)"
  proof -
    have "\<not> list_all (\<lambda>li. Template li = None) (LicenseInfos l)"
      using ne all by (cases "LicenseInfos l") auto
    then have "length (LicenseInfos l) \<noteq>
                 length (filter (\<lambda>li. Template li = None) (LicenseInfos l))"
      by (simp add: filter_all_length)
    then show ?thesis
      using assms tLicenses_loop_all_matched [OF all]
      by (simp add: licensesToProjectAndLicenses_def)
  qed
qed

text \<open>
  C10. A package with no error contributes exactly one entry, at its place in the input:
  an error entry \<open>No license detected\<close> when all its license infos have a nil template
  (also when it has none); otherwise, when every license info has a template, a confident
  entry that lists the templates with a non-empty title and silently leaves out the
  others, so that a package whose templates all have an empty title is a confident entry
  with an empty license list and not an error.
\<close>

theorem empty_titles_and_nil_templates:
  assumes "Err l = []"
    and "licensesToProjectAndLicenses before = Inr (c1, e1)"
    and "licensesToProjectAndLicenses after = Inr (c2, e2)"
  shows
    "(list_all (\<lambda>li. Template li = None) (LicenseInfos l) \<longrightarrow>
        licensesToProjectAndLicenses (before @ l # after) =
          Inr (c1 @ c2,
               e1 @ \<lparr>Project = removeVendor (Package l), Licenses = [],
                      Error = ''No license detected''\<rparr> # e2)) \<and>
     (LicenseInfos l \<noteq> [] \<and> list_all (\<lambda>li. Template li \<noteq> None) (LicenseInfos l) \<longrightarrow>
        licensesToProjectAndLicenses (before @ l # after) =
          Inr (c1 @ \<lparr>Project = removeVendor (Package l),
                      Licenses =
                        map (\<lambda>li. \<lparr>Name = Title (the (Template li)), Confidence = Score li\<rparr>)
                          (filter (\<lambda>li. Title (the (Template li)) \<noteq> []) (LicenseInfos l)),
                      Error = []\<rparr> # c2,
               e1 @ e2)) \<and>
     (LicenseInfos l \<noteq> [] \<and>
      list_all (\<lambda>li. \<exists>t. Template li = Some t \<and> Title t = []) (LicenseInfos l) \<longrightarrow>
        licensesToProjectAndLicenses (before @ l # after) =
          Inr (c1 @ \<lparr>Project = removeVendor (Package l), Licenses = [], Error = []\<rparr> # c2,
               e1 @ e2))"
proof -
  have split: "licensesToProjectAndLicenses (before @ l # after) =
      (case licensesToProjectAndLicenses [l] of
         Inl p \<Rightarrow> Inl p
       | Inr (c, e) \<Rightarrow> Inr (c1 @ c @ c2, e1 @ e @ e2))"
    using licensesToProjectAndLicenses_append [of before "[l] @ after"]
      licensesToProjectAndLicenses_append [of "[l]" after] assms(2,3)
    by (simp split: sum.splits)
  have a: "list_all (\<lambda>li. Template li = None) (LicenseInfos l) \<longrightarrow>
        licensesToProjectAndLicenses (before @ l # after) =
          Inr (c1 @ c2,
               e1 @ \<lparr>Project = removeVendor (Package l), Licenses = [],
                      Error = ''No license detected''\<rparr> # e2)"
    using licensesToProjectAndLicenses_single(1) [OF assms(1)] by (simp add: split)
  have b: "LicenseInfos l \<noteq> [] \<and> list_all (\<lambda>li. Template li \<noteq> None) (LicenseInfos l) \<longrightarrow>
        licensesToProjectAndLicenses (before @ l # after) =
          Inr (c1 @ \<lparr>Project = removeVendor (Package l),
                      Licenses =
                        map (\<lambda>li. \<lparr>Name = Title (the (Template li)), Confidence = Score li\<rparr>)
                          (filter (\<lambda>li. Title (the (Template li)) \<noteq> []) (LicenseInfos l)),
                      Error = []\<rparr> # c2,
               e1 @ e2)"
    using licensesToProjectAndLicenses_single(2) [OF assms(1)] by (simp add: split)
  have c: "LicenseInfos l \<noteq> [] \<and>
      list_all (\<lambda>li. \<exists>t. Template li = Some t \<and> Title t = []) (LicenseInfos l) \<longrightarrow>
        licensesToProjectAndLicenses (before @ l # after) =
          Inr (c1 @ \<lparr>Project = removeVendor (Package l), Licenses = [], Error = []\<rparr> # c2,
               e1 @ e2)"
  proof (intro impI, elim conjE)
    assume ne: "LicenseInfos l \<noteq> []"
      and all: "list_all (\<lambda>li. \<exists>t. Template li = Some t \<and> Title t = []) (LicenseInfos l)"
    have m: "list_all (\<lambda>li. Template li \<noteq> None) (LicenseInfos l)"
      using all by (auto simp: list_all_iff)
    have "filter (\<lambda>li. Title (the (Template li)) \<noteq> []) (LicenseInfos l) = []"
      using all by (auto simp: list_all_iff filter_empty_conv)
    then show "licensesToProjectAndLicenses (before @ l # after) =
          Inr (c1 @ \<lparr>Project = removeVendor (Package l), Licenses = [], Error = []\<rparr> # c2,
               e1 @ e2)"
      using b ne m by simp
  qed
  show ?thesis using a b c by blast
qed

theorem empty_titles_and_nil_templates_witness:
  "licensesToProjectAndLicenses
     [\<lparr>Package = ''x/vendor/p'',
       LicenseInfos =
         [\<lparr>Path = ''p/LICENSE'', Score = Fin (1 / 2),
           Template = Some \<lparr>Title = [], Nickname = ''N'', Words = []\<rparr>,
           ExtraWords = [], MissingWords = []\<rparr>],
       Err = []\<rparr>]
   = Inr ([\<lparr>Project = ''p'', Licenses = [], Error = []\<rparr>], []) \<and>
   licensesToProjectAndLicenses
     [\<lparr>Package = ''q'',
       LicenseInfos =
         [\<lparr>Path = [], Score = Fin 0, Template = None, ExtraWords = [], MissingWords = []\<rparr>],
       Err = []\<rparr>]
   = Inr ([], [\<lparr>Project = ''q'', Licenses = [], Error = ''No license detected''\<rparr>])"
proof -
  let ?li = "\<lparr>Path = ''p/LICENSE'', Score = Fin (1 / 2),
           Template = Some \<lparr>Title = [], Nickname = ''N'', Words = []\<rparr>,
           ExtraWords = [], MissingWords = []\<rparr>"
  let ?l = "\<lparr>Package = ''x/vendor/p'', LicenseInfos = [?li], Err = []\<rparr>"
  let ?n = "\<lparr>Package = ''q'',
       LicenseInfos =
         [\<lparr>Path = [], Score = Fin 0, Template = None, ExtraWords = [], MissingWords = []\<rparr>],
       Err = []\<rparr>"
  have e: "licensesToProjectAndLicenses [] = Inr ([], [])"
    by (simp add: licensesToProjectAndLicenses_def)
  have rv: "removeVendor ''x/vendor/p'' = ''p''" "removeVendor ''q'' = ''q''"
    by (simp_all add: removeVendor_def)
  have "licensesToProjectAndLicenses ([] @ ?l # []) =
          Inr ([] @ \<lparr>Project = removeVendor (Package ?l), Licenses = [], Error = []\<rparr> # [],
               [] @ [])"
    using empty_titles_and_nil_templates [of ?l "[]" "[]" "[]" "[]" "[]" "[]", OF _ e e] by simp
  moreover have "licensesToProjectAndLicenses ([] @ ?n # []) =
          Inr ([] @ [],
               [] @ \<lparr>Project = removeVendor (Package ?n), Licenses = [],
                      Error = ''No license detected''\<rparr> # [])"
    using empty_titles_and_nil_templates [of ?n "[]" "[]" "[]" "[]" "[]" "[]", OF _ e e] by simp
  ultimately show ?thesis using rv by simp
qed

section \<open>The prefix tree counts import paths\<close>
















section \<open>Overrides and confidences, evaluated\<close>

text \<open>
  C1. Two computed attributions, \<open>p1\<close> and \<open>p2\<close>, are both named in the overrides, \<open>p1\<close>
  with the license name \<open>A\<close> and \<open>p2\<close> with \<open>B\<close>. The final confident list gives \<open>p2\<close>
  the names \<open>A\<close> and \<open>B\<close>: the slice \<open>tls\<close> is never emptied between two overridden
  projects. In the second run the project \<open>x\<close> is named in the overrides and is both a
  confident attribution and an error (two vendored copies): it stays in the final error
  list, because the first loop deletes \<open>x\<close> from \<open>fplm\<close> before the errors are filtered.
\<close>

theorem override_licenses_accumulate:
  "pkgsToLicenses (\<lambda>paths. paths) (\<lambda>fplm. fplm)
     [\<lparr>Project = ''p1'', Licenses = [\<lparr>Name = ''A'', Confidence = Fin 0\<rparr>], Error = []\<rparr>,
      \<lparr>Project = ''p2'', Licenses = [\<lparr>Name = ''B'', Confidence = Fin 0\<rparr>], Error = []\<rparr>]
     [\<lparr>Package = ''p1'',
       LicenseInfos =
         [\<lparr>Path = ''p1/LICENSE'', Score = Fin (2 / 3),
           Template = Some \<lparr>Title = ''MIT License'', Nickname = ''MIT'', Words = []\<rparr>,
           ExtraWords = [], MissingWords = []\<rparr>],
       Err = []\<rparr>,
      \<lparr>Package = ''p2'',
       LicenseInfos =
         [\<lparr>Path = ''p2/LICENSE'', Score = Fin 1,
           Template = Some \<lparr>Title = ''Apache License 2.0'', Nickname = [], Words = []\<rparr>,
           ExtraWords = [], MissingWords = []\<rparr>],
       Err = []\<rparr>]
   = Inr ([\<lparr>Project = ''p1'', Licenses = [\<lparr>Name = ''A'', Confidence = Fin 1\<rparr>], Error = []\<rparr>,
           \<lparr>Project = ''p2'',
            Licenses = [\<lparr>Name = ''A'', Confidence = Fin 1\<rparr>, \<lparr>Name = ''B'', Confidence = Fin 1\<rparr>],
            Error = []\<rparr>],
          []) \<and>
   pkgsToLicenses (\<lambda>paths. paths) (\<lambda>fplm. fplm)
     [\<lparr>Project = ''x'', Licenses = [\<lparr>Name = ''A'', Confidence = Fin 0\<rparr>], Error = []\<rparr>]
     [\<lparr>Package = ''a/vendor/x'',
       LicenseInfos =
         [\<lparr>Path = ''a/vendor/x/LICENSE'', Score = Fin 1,
           Template = Some \<lparr>Title = ''MIT License'', Nickname = ''MIT'', Words = []\<rparr>,
           ExtraWords = [], MissingWords = []\<rparr>],
       Err = []\<rparr>,
      \<lparr>Package = ''b/vendor/x'',
       LicenseInfos =
         [\<lparr>Path = [], Score = Fin 0, Template = None, ExtraWords = [], MissingWords = []\<rparr>],
       Err = ''build failed''\<rparr>]
   = Inr ([\<lparr>Project = ''x'', Licenses = [\<lparr>Name = ''A'', Confidence = Fin 1\<rparr>], Error = []\<rparr>],
          [\<lparr>Project = ''x'', Licenses = [], Error = ''build failed''\<rparr>])"
  by (simp add: pkgsToLicenses_def groupLicenses_def licensesToProjectAndLicenses_def
      removeVendor_def forced_def Let_def)

text \<open>
  C2. A license file that scores \<open>2/3\<close> against its template is presented with the
  confidence \<open>2/3\<close> itself, not with \<open>0.667\<close>: \<open>truncateFloat\<close> is never called.
\<close>

theorem confidence_not_truncated:
  "pkgsToLicenses (\<lambda>paths. paths) (\<lambda>fplm. fplm) []
     [\<lparr>Package = ''p1'',
       LicenseInfos =
         [\<lparr>Path = ''p1/LICENSE'', Score = Fin (2 / 3),
           Template = Some \<lparr>Title = ''MIT License'', Nickname = ''MIT'', Words = []\<rparr>,
           ExtraWords = [], MissingWords = []\<rparr>],
       Err = []\<rparr>]
   = Inr ([\<lparr>Project = ''p1'', Licenses = [\<lparr>Name = ''MIT License'', Confidence = Fin (2 / 3)\<rparr>],
            Error = []\<rparr>], []) \<and>
   truncateFloat (Fin (2 / 3)) = Fin (667 / 1000)"
proof -
  have "truncateFloat (Fin (2 / 3)) = Fin (667 / 1000)" by code_simp
  then show ?thesis
    by (simp add: pkgsToLicenses_def groupLicenses_def licensesToProjectAndLicenses_def
      removeVendor_def forced_def Let_def del: truncateFloat.simps)
qed

section \<open>Grouping merges only the claimants of one license path\<close>













section \<open>Word sets and the words a match reports\<close>

lemma firstIndex_less: "x \<in> set xs \<Longrightarrow> firstIndex xs x < length xs"
  by (induction xs) auto

lemma firstIndex_nth: "x \<in> set xs \<Longrightarrow> xs ! firstIndex xs x = x"
  by (induction xs) auto

lemma firstIndex_inj:
  "x \<in> set xs \<Longrightarrow> y \<in> set xs \<Longrightarrow> firstIndex xs x = firstIndex xs y \<Longrightarrow> x = y"
  by (metis firstIndex_nth)

lemma distinct_words_loop:
  "distinct (map fst words) \<Longrightarrow> distinct (map fst (words_loop i ms words))"
  by (induction ms arbitrary: i words) (simp_all add: distinct_update)

lemma map_of_words_loop:
  "map_of (words_loop i ms words) w =
     (case map_of words w of
        Some p \<Rightarrow> Some p
      | None \<Rightarrow> if w \<in> set ms then Some (i + firstIndex ms w) else None)"
proof (induction ms arbitrary: i words)
  case Nil
  show ?case by (simp split: option.splits)
next
  case (Cons m ms)
  show ?case
    by (simp add: Cons.IH update_conv' split: option.splits)
qed

lemma makeWordSet_distinct: "distinct (map fst (makeWordSet u d))"
  unfolding makeWordSet_def by (rule distinct_words_loop) simp

lemma makeWordSet_map_of:
  "map_of (makeWordSet u d) w =
     (if w \<in> set (reWords_FindAll (cleanLicenseData u d)) then Some (firstPos u d w) else None)"
  by (simp add: makeWordSet_def map_of_words_loop firstPos_def)

lemma makeWordSet_entry:
  "(w, p) \<in> set (makeWordSet u d) \<longleftrightarrow>
     w \<in> set (reWords_FindAll (cleanLicenseData u d)) \<and> p = firstPos u d w"
proof -
  have "(w, p) \<in> set (makeWordSet u d) \<longleftrightarrow> map_of (makeWordSet u d) w = Some p"
    using makeWordSet_distinct [of u d] by (auto dest: map_of_SomeD)
  then show ?thesis by (auto simp: makeWordSet_map_of)
qed

lemma makeWordSet_positions: "distinct (map snd (makeWordSet u d))"
proof -
  have "inj_on snd (set (makeWordSet u d))"
  proof (rule inj_onI)
    fix a b
    assume a: "a \<in> set (makeWordSet u d)" and b: "b \<in> set (makeWordSet u d)" and e: "snd a = snd b"
    obtain w p where ap: "a = (w, p)" by (cases a)
    obtain v q where bq: "b = (v, q)" by (cases b)
    have "w = v"
      using a b e ap bq firstIndex_inj [of w "reWords_FindAll (cleanLicenseData u d)" v]
      by (simp add: makeWordSet_entry firstPos_def)
    then show "a = b" using e ap bq by simp
  qed
  moreover have "distinct (makeWordSet u d)"
    using makeWordSet_distinct [of u d] by (simp add: distinct_map)
  ultimately show ?thesis by (simp add: distinct_map)
qed

lemma templates_loop_best:
  "templates_loop rng words ts (bs, bt, be, bm) = (bs', bt', be', bm') \<Longrightarrow>
   (bt' = bt \<and> be' = be \<and> bm' = bm) \<or>
   (\<exists>t\<in>set ts. bt' = Some t \<and> be' = extraOf rng words t \<and> bm' = missingOf rng words t)"
proof (induction ts arbitrary: bs bt be bm)
  case Nil
  then show ?case by simp
next
  case (Cons t ts)
  show ?case
  proof (cases "float64_gt (scoreOf rng words t) bs")
    case True
    then have "templates_loop rng words ts
        (scoreOf rng words t, Some t, extraOf rng words t, missingOf rng words t) =
        (bs', bt', be', bm')"
      using Cons.prems by simp
    from Cons.IH [OF this] show ?thesis by auto
  next
    case False
    then have "templates_loop rng words ts (bs, bt, be, bm) = (bs', bt', be', bm')"
      using Cons.prems by simp
    from Cons.IH [OF this] show ?thesis by auto
  qed
qed

lemma sorted_words:
  assumes d: "distinct (map snd es)" and f: "\<forall>(w, p)\<in>set es. p = f w"
  shows "set (sortAndReturnWords (map (\<lambda>(w, pos). \<lparr>Text = w, Pos = pos\<rparr>) es)) = fst ` set es \<and>
         sorted_wrt (<) (map f (sortAndReturnWords (map (\<lambda>(w, pos). \<lparr>Text = w, Pos = pos\<rparr>) es)))"
proof -
  let ?xs = "map (\<lambda>(w, pos). \<lparr>Text = w, Pos = pos\<rparr>) es"
  let ?ys = "sort_key Pos ?xs"
  have pos: "map Pos ?xs = map snd es" by (induction es) auto
  have texts: "map Text ?xs = map fst es" by (induction es) auto
  have "set (map Text ?ys) = set (map Text ?xs)" by (simp del: map_map)
  then have s: "set (map Text ?ys) = fst ` set es" unfolding texts by simp
  have fx: "f (Text x) = Pos x" if "x \<in> set ?xs" for x
    using that f by auto
  have eq: "map (\<lambda>x. f (Text x)) ?ys = map Pos ?ys"
    by (rule map_cong [OF refl]) (simp add: fx)
  have so: "sorted (map Pos ?ys)" by (rule sorted_sort_key)
  have "mset (map Pos ?ys) = mset (map Pos ?xs)" by (metis mset_map mset_sort)
  then have di: "distinct (map Pos ?ys)" using d pos by (metis mset_eq_imp_distinct_iff)
  have "sorted_wrt (<) (map Pos ?ys)" using so di by (metis strict_sorted_iff)
  then have "sorted_wrt (<) (map (\<lambda>x. f (Text x)) ?ys)" by (simp only: eq)
  moreover have "map f (map Text ?ys) = map (\<lambda>x. f (Text x)) ?ys" by (simp only: map_map o_def)
  ultimately have "sorted_wrt (<) (map f (map Text ?ys))" by (simp only:)
  then show ?thesis using s by (simp only: sortAndReturnWords_def simp_thms)
qed

lemma rng_filter_entries:
  assumes rng: "\<forall>xs. mset (rng xs) = mset xs"
  shows "distinct (map snd (filter P (rng (makeWordSet u d))))"
    and "\<forall>(w, p)\<in>set (filter P (rng (makeWordSet u d))). p = firstPos u d w"
    and "fst ` set (filter (\<lambda>(w, p). Q w) (rng (makeWordSet u d))) =
           {w \<in> vocabulary (makeWordSet u d). Q w}"
proof -
  have m: "mset (rng (makeWordSet u d)) = mset (makeWordSet u d)" using rng by simp
  then have "mset (map snd (rng (makeWordSet u d))) = mset (map snd (makeWordSet u d))"
    by (metis mset_map)
  then have "distinct (map snd (rng (makeWordSet u d)))"
    using makeWordSet_positions [of u d] by (metis mset_eq_imp_distinct_iff)
  then show "distinct (map snd (filter P (rng (makeWordSet u d))))"
    by (rule distinct_map_filter)
  have st: "set (rng (makeWordSet u d)) = set (makeWordSet u d)" using m by (rule mset_eq_setD)
  show "\<forall>(w, p)\<in>set (filter P (rng (makeWordSet u d))). p = firstPos u d w"
    using st by (auto simp: makeWordSet_entry)
  show "fst ` set (filter (\<lambda>(w, p). Q w) (rng (makeWordSet u d))) =
           {w \<in> vocabulary (makeWordSet u d). Q w}"
    using st by (force simp: vocabulary_def)
qed

lemma absent_iff: "map_of words w = None \<longleftrightarrow> w \<notin> vocabulary words"
  by (simp add: vocabulary_def map_of_eq_None_iff)

lemma matchTemplates_words:
  assumes rng: "\<forall>xs. mset (rng xs) = mset xs"
    and tw: "\<forall>t\<in>set templates. Words t = makeWordSet u (bodyOf t)"
  shows "(MatchResult.Template (matchTemplates rng u license templates) = None \<and>
          MatchResult.ExtraWords (matchTemplates rng u license templates) = [] \<and>
          MatchResult.MissingWords (matchTemplates rng u license templates) = []) \<or>
         (\<exists>t\<in>set templates.
            MatchResult.Template (matchTemplates rng u license templates) = Some t \<and>
            set (MatchResult.ExtraWords (matchTemplates rng u license templates)) =
              vocabulary (makeWordSet u license) - vocabulary (Words t) \<and>
            sorted_wrt (<) (map (firstPos u license)
              (MatchResult.ExtraWords (matchTemplates rng u license templates))) \<and>
            set (MatchResult.MissingWords (matchTemplates rng u license templates)) =
              vocabulary (Words t) - vocabulary (makeWordSet u license) \<and>
            sorted_wrt (<) (map (firstPos u (bodyOf t))
              (MatchResult.MissingWords (matchTemplates rng u license templates))))"
proof -
  let ?w = "makeWordSet u license"
  obtain bs bt be bm where
    l: "templates_loop rng ?w templates (Fin (- 1), None, [], []) = (bs, bt, be, bm)"
    by (metis prod_cases4)
  have r: "matchTemplates rng u license templates =
     \<lparr>MatchResult.Template = bt, MatchResult.Score = bs,
      MatchResult.ExtraWords = sortAndReturnWords be,
      MatchResult.MissingWords = sortAndReturnWords bm\<rparr>"
    using l by (simp add: matchTemplates_def)
  from templates_loop_best [OF l] show ?thesis
  proof (elim disjE bexE conjE)
    assume "bt = None" "be = []" "bm = []"
    then show ?thesis using r by (simp add: sortAndReturnWords_def)
  next
    fix t
    assume t: "t \<in> set templates" and bt: "bt = Some t"
      and be: "be = extraOf rng ?w t" and bm: "bm = missingOf rng ?w t"
    have wt: "Words t = makeWordSet u (bodyOf t)" using tw t by simp
    let ?e = "filter (\<lambda>(w, pos). map_of (Words t) w = None) (rng ?w)"
    let ?m = "filter (\<lambda>(w, pos). map_of ?w w = None) (rng (makeWordSet u (bodyOf t)))"
    have e: "set (sortAndReturnWords be) = fst ` set ?e \<and>
             sorted_wrt (<) (map (firstPos u license) (sortAndReturnWords be))"
      unfolding be extraOf_def
      by (rule sorted_words) (rule rng_filter_entries [OF rng])+
    have m: "set (sortAndReturnWords bm) = fst ` set ?m \<and>
             sorted_wrt (<) (map (firstPos u (bodyOf t)) (sortAndReturnWords bm))"
      unfolding bm missingOf_def wt
      by (rule sorted_words) (rule rng_filter_entries [OF rng])+
    have "fst ` set ?e = vocabulary ?w - vocabulary (Words t)"
      using rng_filter_entries(3) [OF rng, of "\<lambda>w. map_of (Words t) w = None" u license]
      by (auto simp: absent_iff)
    moreover have "fst ` set ?m = vocabulary (Words t) - vocabulary ?w"
      using rng_filter_entries(3) [OF rng, of "\<lambda>w. map_of ?w w = None" u "bodyOf t"] wt
      by (auto simp: absent_iff)
    ultimately show ?thesis using r t bt e m by auto
  qed
qed

text \<open>
  C7. Whatever order the two word sets are ranged over, and for templates whose word
  sets were built by \<open>makeWordSet\<close> (as \<open>parseTemplate\<close> does): when \<open>matchTemplates\<close>
  returns a template, \<open>ExtraWords\<close> holds exactly the words of the sample that the
  template lacks and \<open>MissingWords\<close> exactly the words of the template that the sample
  lacks, each list strictly increasing in the position at which the word first occurs
  among the tokens of the sample, respectively of the template's body. When it returns
  no template, both lists are empty.
\<close>

theorem extra_and_missing_words:
  assumes "\<forall>xs. mset (rng xs) = mset xs"
    and "\<forall>t\<in>set templates. Words t = makeWordSet u (bodyOf t)"
  shows "(MatchResult.Template (matchTemplates rng u license templates) = None \<and>
          MatchResult.ExtraWords (matchTemplates rng u license templates) = [] \<and>
          MatchResult.MissingWords (matchTemplates rng u license templates) = []) \<or>
         (\<exists>t\<in>set templates.
            MatchResult.Template (matchTemplates rng u license templates) = Some t \<and>
            set (MatchResult.ExtraWords (matchTemplates rng u license templates)) =
              vocabulary (makeWordSet u license) - vocabulary (Words t) \<and>
            sorted_wrt (<) (map (firstPos u license)
              (MatchResult.ExtraWords (matchTemplates rng u license templates))) \<and>
            set (MatchResult.MissingWords (matchTemplates rng u license templates)) =
              vocabulary (Words t) - vocabulary (makeWordSet u license) \<and>
            sorted_wrt (<) (map (firstPos u (bodyOf t))
              (MatchResult.MissingWords (matchTemplates rng u license templates))))"
  using assms by (rule matchTemplates_words)

theorem extra_and_missing_words_witness:
  "MatchResult.ExtraWords
     (matchTemplates rev (\<lambda>data. data) ''mit foo bar''
        [templateOf (\<lambda>data. data) ''A'' ''a'' ''apache license'', templateOf (\<lambda>data. data) ''M'' ''m'' ''the mit license bar''])
   = [''foo''] \<and>
   MatchResult.MissingWords
     (matchTemplates rev (\<lambda>data. data) ''mit foo bar''
        [templateOf (\<lambda>data. data) ''A'' ''a'' ''apache license'', templateOf (\<lambda>data. data) ''M'' ''m'' ''the mit license bar''])
   = [''the'', ''license''] \<and>
   sorted_wrt (<) (map (firstPos (\<lambda>data. data) ''the mit license bar'') [''the'', ''license''])"
proof -
  let ?ts = "[templateOf (\<lambda>data. data) ''A'' ''a'' ''apache license'', templateOf (\<lambda>data. data) ''M'' ''m'' ''the mit license bar'']"
  let ?body = "\<lambda>t. if Title t = ''A'' then ''apache license'' else ''the mit license bar''"
  let ?r = "matchTemplates rev (\<lambda>data. data) ''mit foo bar'' ?ts"
  have rng: "\<forall>xs :: (string \<times> nat) list. mset (rev xs) = mset xs" by simp
  have tw: "\<forall>t\<in>set ?ts. Words t = makeWordSet (\<lambda>data. data) (?body t)" by (simp add: templateOf_def)
  have ev: "?r = \<lparr>MatchResult.Template = Some (templateOf (\<lambda>data. data) ''M'' ''m'' ''the mit license bar''),
                 MatchResult.Score = Fin (4 / 7), MatchResult.ExtraWords = [''foo''],
                 MatchResult.MissingWords = [''the'', ''license'']\<rparr>"
    by code_simp
  have t: "Title (templateOf (\<lambda>data. data) ''M'' ''m'' ''the mit license bar'') = ''M''"
    by (simp add: templateOf_def)
  have "\<exists>t\<in>set ?ts. MatchResult.Template ?r = Some t \<and>
          sorted_wrt (<) (map (firstPos (\<lambda>data. data) (?body t)) (MatchResult.MissingWords ?r))"
    using extra_and_missing_words [OF rng tw, of "''mit foo bar''"] ev by auto
  then have "sorted_wrt (<) (map (firstPos (\<lambda>data. data) ''the mit license bar'') (MatchResult.MissingWords ?r))"
    using ev t by auto
  then show ?thesis using ev by simp
qed

section \<open>Scores and the best template\<close>

lemma length_vocabulary: "distinct (map fst words) \<Longrightarrow> length words = card (vocabulary words)"
  using distinct_card [of "map fst words"] by (simp add: vocabulary_def)

lemma commonOf_card:
  assumes rng: "\<forall>xs. mset (rng xs) = mset xs" and d: "distinct (map fst words)"
  shows "commonOf rng words t = card (vocabulary words \<inter> vocabulary (Words t))"
proof -
  let ?P = "\<lambda>(w, pos). map_of (Words t) w \<noteq> None"
  let ?Q = "\<lambda>w. w \<in> vocabulary (Words t)"
  have "mset (filter ?P (rng words)) = mset (filter ?P words)"
    using rng by (simp add: mset_filter)
  then have "length (filter ?P (rng words)) = length (filter ?P words)"
    by (metis size_mset)
  also have "\<dots> = length (map fst (filter ?P words))" by simp
  also have "map fst (filter ?P words) = filter ?Q (map fst words)"
    by (induction words) (auto simp: absent_iff)
  also have "length (filter ?Q (map fst words)) = card (set (filter ?Q (map fst words)))"
    using distinct_card [OF distinct_filter [OF d, of ?Q]] by (simp only:)
  also have "set (filter ?Q (map fst words)) = vocabulary words \<inter> vocabulary (Words t)"
    by (auto simp: vocabulary_def)
  finally show ?thesis by (simp add: commonOf_def)
qed

lemma scoreOf_dice:
  assumes rng: "\<forall>xs. mset (rng xs) = mset xs"
    and d: "distinct (map fst words)" and dt: "distinct (map fst (Words t))"
    and nz: "words \<noteq> [] \<or> Words t \<noteq> []"
  shows "scoreOf rng words t = Fin (dice (vocabulary words) (vocabulary (Words t)))"
proof -
  have "length words + length (Words t) \<noteq> 0" using nz by auto
  then have "scoreOf rng words t =
      Fin (of_nat (2 * commonOf rng words t) / of_nat (length words + length (Words t)))"
    by (simp add: scoreOf_def float64_quot_def)
  then show ?thesis
    by (simp add: dice_def commonOf_card [OF rng d] length_vocabulary [OF d]
        length_vocabulary [OF dt])
qed

lemma dice_nonneg: "0 \<le> dice A B"
  by (simp add: dice_def)

lemma dice_le_one: "finite A \<Longrightarrow> finite B \<Longrightarrow> dice A B \<le> 1"
proof -
  assume f: "finite A" "finite B"
  have "card (A \<inter> B) \<le> card A" "card (A \<inter> B) \<le> card B"
    using f by (simp_all add: card_mono)
  then have le: "2 * card (A \<inter> B) \<le> card A + card B" by simp
  show ?thesis
  proof (cases "card A + card B = 0")
    case True
    then show ?thesis by (simp add: dice_def)
  next
    case False
    have "(2 :: rat) * of_nat (card (A \<inter> B)) = of_nat (2 * card (A \<inter> B))" by simp
    also have "\<dots> \<le> of_nat (card A + card B)" using le by (simp only: of_nat_le_iff)
    finally have "(2 :: rat) * of_nat (card (A \<inter> B)) \<le> of_nat (card A) + of_nat (card B)"
      by simp
    moreover have "(0 :: rat) < of_nat (card A) + of_nat (card B)"
      using False by (metis of_nat_0_less_iff of_nat_add neq0_conv)
    ultimately show ?thesis by (simp add: dice_def)
  qed
qed

lemma dice_self: "finite A \<Longrightarrow> A \<noteq> {} \<Longrightarrow> dice A A = 1"
  by (simp add: dice_def)

lemma templates_loop_max:
  assumes sc: "\<forall>t\<in>set ts. scoreOf rng words t = Fin (sc t)"
    and l: "templates_loop rng words ts (Fin b, bt, be, bm) = (bs', bt', be', bm')"
  shows "((\<forall>t\<in>set ts. sc t \<le> b) \<and> bs' = Fin b \<and> bt' = bt) \<or>
         (\<exists>i<length ts. b < sc (ts ! i) \<and> bs' = Fin (sc (ts ! i)) \<and> bt' = Some (ts ! i) \<and>
            (\<forall>j<length ts. sc (ts ! j) \<le> sc (ts ! i)) \<and> (\<forall>j<i. sc (ts ! j) < sc (ts ! i)))"
  using sc l
proof (induction ts arbitrary: b bt be bm)
  case Nil
  then show ?case by simp
next
  case (Cons t ts)
  have st: "scoreOf rng words t = Fin (sc t)" and rest: "\<forall>t\<in>set ts. scoreOf rng words t = Fin (sc t)"
    using Cons.prems(1) by simp_all
  show ?case
  proof (cases "b < sc t")
    case True
    then have "templates_loop rng words ts
        (Fin (sc t), Some t, extraOf rng words t, missingOf rng words t) = (bs', bt', be', bm')"
      using Cons.prems(2) st by simp
    from Cons.IH [OF rest this]
    show ?thesis
    proof (elim disjE conjE exE)
      assume a: "\<forall>u\<in>set ts. sc u \<le> sc t" "bs' = Fin (sc t)" "bt' = Some t"
      have "\<forall>j<length (t # ts). sc ((t # ts) ! j) \<le> sc t"
        using a(1) by (auto simp: nth_Cons split: nat.splits)
      then have "0 < length (t # ts) \<and> b < sc ((t # ts) ! 0) \<and> bs' = Fin (sc ((t # ts) ! 0)) \<and>
          bt' = Some ((t # ts) ! 0) \<and>
          (\<forall>j<length (t # ts). sc ((t # ts) ! j) \<le> sc ((t # ts) ! 0)) \<and>
          (\<forall>j<0. sc ((t # ts) ! j) < sc ((t # ts) ! 0))"
        using True a by simp
      then show ?thesis by blast
    next
      fix i
      assume a: "i < length ts" "sc t < sc (ts ! i)" "bs' = Fin (sc (ts ! i))" "bt' = Some (ts ! i)"
        "\<forall>j<length ts. sc (ts ! j) \<le> sc (ts ! i)" "\<forall>j<i. sc (ts ! j) < sc (ts ! i)"
      have "Suc i < length (t # ts) \<and> b < sc ((t # ts) ! Suc i) \<and>
          bs' = Fin (sc ((t # ts) ! Suc i)) \<and> bt' = Some ((t # ts) ! Suc i) \<and>
          (\<forall>j<length (t # ts). sc ((t # ts) ! j) \<le> sc ((t # ts) ! Suc i)) \<and>
          (\<forall>j<Suc i. sc ((t # ts) ! j) < sc ((t # ts) ! Suc i))"
        using True a by (auto simp: nth_Cons split: nat.splits)
      then show ?thesis by blast
    qed
  next
    case False
    then have "templates_loop rng words ts (Fin b, bt, be, bm) = (bs', bt', be', bm')"
      using Cons.prems(2) st by simp
    from Cons.IH [OF rest this]
    show ?thesis
    proof (elim disjE conjE exE)
      assume "\<forall>u\<in>set ts. sc u \<le> b" "bs' = Fin b" "bt' = bt"
      then show ?thesis using False by auto
    next
      fix i
      assume a: "i < length ts" "b < sc (ts ! i)" "bs' = Fin (sc (ts ! i))" "bt' = Some (ts ! i)"
        "\<forall>j<length ts. sc (ts ! j) \<le> sc (ts ! i)" "\<forall>j<i. sc (ts ! j) < sc (ts ! i)"
      have "Suc i < length (t # ts) \<and> b < sc ((t # ts) ! Suc i) \<and>
          bs' = Fin (sc ((t # ts) ! Suc i)) \<and> bt' = Some ((t # ts) ! Suc i) \<and>
          (\<forall>j<length (t # ts). sc ((t # ts) ! j) \<le> sc ((t # ts) ! Suc i)) \<and>
          (\<forall>j<Suc i. sc ((t # ts) ! j) < sc ((t # ts) ! Suc i))"
        using False a by (auto simp: nth_Cons split: nat.splits)
      then show ?thesis by blast
    qed
  qed
qed

lemma matchTemplates_best:
  assumes rng: "\<forall>xs. mset (rng xs) = mset xs"
    and ne: "templates \<noteq> []"
    and wf: "\<forall>t\<in>set templates. distinct (map fst (Words t))"
    and nz: "\<forall>t\<in>set templates. makeWordSet u license \<noteq> [] \<or> Words t \<noteq> []"
  shows "(\<forall>t\<in>set templates.
            scoreOf rng (makeWordSet u license) t =
              Fin (dice (vocabulary (makeWordSet u license)) (vocabulary (Words t)))) \<and>
         (\<exists>i<length templates.
            MatchResult.Template (matchTemplates rng u license templates) = Some (templates ! i) \<and>
            MatchResult.Score (matchTemplates rng u license templates) =
              Fin (dice (vocabulary (makeWordSet u license)) (vocabulary (Words (templates ! i)))) \<and>
            (\<forall>j<length templates.
               dice (vocabulary (makeWordSet u license)) (vocabulary (Words (templates ! j)))
               \<le> dice (vocabulary (makeWordSet u license)) (vocabulary (Words (templates ! i)))) \<and>
            (\<forall>j<i.
               dice (vocabulary (makeWordSet u license)) (vocabulary (Words (templates ! j)))
               < dice (vocabulary (makeWordSet u license)) (vocabulary (Words (templates ! i)))))"
proof -
  let ?w = "makeWordSet u license"
  define sc where "sc t = dice (vocabulary ?w) (vocabulary (Words t))" for t :: Template
  have s: "\<forall>t\<in>set templates. scoreOf rng ?w t = Fin (sc t)"
    using scoreOf_dice [OF rng makeWordSet_distinct] wf nz by (simp add: sc_def)
  obtain bs bt be bm where
    l: "templates_loop rng ?w templates (Fin (- 1), None, [], []) = (bs, bt, be, bm)"
    by (metis prod_cases4)
  have r: "MatchResult.Template (matchTemplates rng u license templates) = bt"
    "MatchResult.Score (matchTemplates rng u license templates) = bs"
    using l by (simp_all add: matchTemplates_def)
  obtain t0 where t0: "t0 \<in> set templates" using ne by (cases templates) auto
  have "\<not> sc t0 \<le> - 1" using dice_nonneg [of "vocabulary ?w" "vocabulary (Words t0)"]
    by (simp add: sc_def)
  then have "\<not> (\<forall>t\<in>set templates. sc t \<le> - 1)" using t0 by blast
  then have "\<exists>i<length templates. - 1 < sc (templates ! i) \<and> bs = Fin (sc (templates ! i)) \<and>
      bt = Some (templates ! i) \<and>
      (\<forall>j<length templates. sc (templates ! j) \<le> sc (templates ! i)) \<and>
      (\<forall>j<i. sc (templates ! j) < sc (templates ! i))"
    using templates_loop_max [OF s l] by blast
  then show ?thesis using s r unfolding sc_def by blast
qed

text \<open>
  C3, as the code has it. Whatever order the sample's word set is ranged over, for a
  non-empty corpus of templates with well-formed word sets in which the sample or every
  template has at least one word (so that no score is \<open>0/0\<close>): every template's score is
  the Dice coefficient \<open>2 * common / (|sample| + |template|)\<close> of the two vocabularies, and
  the template returned has the greatest score and is the first to reach it.
\<close>

theorem best_template_first_maximal:
  assumes "\<forall>xs. mset (rng xs) = mset xs"
    and "templates \<noteq> []"
    and "\<forall>t\<in>set templates. distinct (map fst (Words t))"
    and "\<forall>t\<in>set templates. makeWordSet u license \<noteq> [] \<or> Words t \<noteq> []"
  shows "(\<forall>t\<in>set templates.
            scoreOf rng (makeWordSet u license) t =
              Fin (dice (vocabulary (makeWordSet u license)) (vocabulary (Words t)))) \<and>
         (\<exists>i<length templates.
            MatchResult.Template (matchTemplates rng u license templates) = Some (templates ! i) \<and>
            MatchResult.Score (matchTemplates rng u license templates) =
              Fin (dice (vocabulary (makeWordSet u license)) (vocabulary (Words (templates ! i)))) \<and>
            (\<forall>j<length templates.
               dice (vocabulary (makeWordSet u license)) (vocabulary (Words (templates ! j)))
               \<le> dice (vocabulary (makeWordSet u license)) (vocabulary (Words (templates ! i)))) \<and>
            (\<forall>j<i.
               dice (vocabulary (makeWordSet u license)) (vocabulary (Words (templates ! j)))
               < dice (vocabulary (makeWordSet u license)) (vocabulary (Words (templates ! i)))))"
  using assms by (rule matchTemplates_best)

theorem best_template_first_maximal_witness:
  "MatchResult.Template
     (matchTemplates rev (\<lambda>data. data) ''mit foo bar''
        [templateOf (\<lambda>data. data) ''A'' ''a'' ''apache license'', templateOf (\<lambda>data. data) ''M'' ''m'' ''the mit license bar'',
         templateOf (\<lambda>data. data) ''M2'' ''m'' ''bar the mit license''])
   = Some (templateOf (\<lambda>data. data) ''M'' ''m'' ''the mit license bar'') \<and>
   scoreOf rev (makeWordSet (\<lambda>data. data) ''mit foo bar'') (templateOf (\<lambda>data. data) ''M2'' ''m'' ''bar the mit license'')
   = Fin (4 / 7) \<and>
   dice (vocabulary (makeWordSet (\<lambda>data. data) ''mit foo bar''))
     (vocabulary (Words (templateOf (\<lambda>data. data) ''M2'' ''m'' ''bar the mit license''))) = 4 / 7"
proof -
  let ?ts = "[templateOf (\<lambda>data. data) ''A'' ''a'' ''apache license'', templateOf (\<lambda>data. data) ''M'' ''m'' ''the mit license bar'',
         templateOf (\<lambda>data. data) ''M2'' ''m'' ''bar the mit license'']"
  have rng: "\<forall>xs :: (string \<times> nat) list. mset (rev xs) = mset xs" by simp
  have ne: "?ts \<noteq> []" by simp
  have wf: "\<forall>t\<in>set ?ts. distinct (map fst (Words t))"
    by (simp add: templateOf_def makeWordSet_distinct)
  have w: "makeWordSet (\<lambda>data. data) ''mit foo bar'' \<noteq> []" by code_simp
  then have nz: "\<forall>t\<in>set ?ts. makeWordSet (\<lambda>data. data) ''mit foo bar'' \<noteq> [] \<or> Words t \<noteq> []" by simp
  have ev: "MatchResult.Template (matchTemplates rev (\<lambda>data. data) ''mit foo bar'' ?ts)
      = Some (templateOf (\<lambda>data. data) ''M'' ''m'' ''the mit license bar'')"
    by code_simp
  have sc: "scoreOf rev (makeWordSet (\<lambda>data. data) ''mit foo bar'')
      (templateOf (\<lambda>data. data) ''M2'' ''m'' ''bar the mit license'') = Fin (4 / 7)"
    by code_simp
  have "\<forall>t\<in>set ?ts. scoreOf rev (makeWordSet (\<lambda>data. data) ''mit foo bar'') t =
          Fin (dice (vocabulary (makeWordSet (\<lambda>data. data) ''mit foo bar'')) (vocabulary (Words t)))"
    using best_template_first_maximal [OF rng ne wf nz] by blast
  then have "scoreOf rev (makeWordSet (\<lambda>data. data) ''mit foo bar'')
      (templateOf (\<lambda>data. data) ''M2'' ''m'' ''bar the mit license'') =
      Fin (dice (vocabulary (makeWordSet (\<lambda>data. data) ''mit foo bar''))
        (vocabulary (Words (templateOf (\<lambda>data. data) ''M2'' ''m'' ''bar the mit license''))))"
    by simp
  then show ?thesis using ev sc by simp
qed

text \<open>
  C3, as stated, fails where a score is \<open>0/0\<close>: for a sample without words and a corpus
  of one template without words the score is NaN, which is not greater than \<open>-1\<close>, and no
  template is returned, whatever the Unicode map \<open>u\<close> is.
\<close>

theorem no_template_for_empty_word_sets:
  "\<forall>u.
   MatchResult.Template
     (matchTemplates (\<lambda>words. words) u [] [\<lparr>Title = ''Empty'', Nickname = [], Words = []\<rparr>]) = None \<and>
   MatchResult.Score
     (matchTemplates (\<lambda>words. words) u [] [\<lparr>Title = ''Empty'', Nickname = [], Words = []\<rparr>])
     = Fin (- 1) \<and>
   scoreOf (\<lambda>words. words) (makeWordSet u []) \<lparr>Title = ''Empty'', Nickname = [], Words = []\<rparr> = NaN"
  by (rule allI) code_simp

text \<open>
  C8, as the code has it. For every text \<open>T\<close> with at least one word left after
  normalization, the template built from \<open>T\<close> scores \<open>1.0\<close> against \<open>T\<close>, and when it belongs
  to the corpus the best score \<open>matchTemplates\<close> returns is \<open>1.0\<close>.
\<close>

theorem self_similarity:
  assumes rng: "\<forall>xs. mset (rng xs) = mset xs"
    and w: "makeWordSet u T \<noteq> []"
  shows "scoreOf rng (makeWordSet u T) (templateOf u title nickname T) = Fin 1 \<and>
         (templateOf u title nickname T \<in> set templates \<and>
          (\<forall>t\<in>set templates. distinct (map fst (Words t))) \<longrightarrow>
          MatchResult.Score (matchTemplates rng u T templates) = Fin 1)"
proof -
  let ?w = "makeWordSet u T"
  let ?self = "templateOf u title nickname T"
  have fin: "finite (vocabulary ws)" for ws by (simp add: vocabulary_def)
  have nev: "vocabulary ?w \<noteq> {}" using w by (simp add: vocabulary_def)
  have ws: "Words ?self = ?w" by (simp add: templateOf_def)
  have one: "dice (vocabulary ?w) (vocabulary (Words ?self)) = 1"
    unfolding ws using fin nev by (rule dice_self)
  have s: "scoreOf rng ?w ?self = Fin 1"
    using scoreOf_dice [OF rng makeWordSet_distinct, of ?self u T] makeWordSet_distinct [of u T] w one
    by (simp add: ws)
  have "MatchResult.Score (matchTemplates rng u T templates) = Fin 1"
    if mem: "?self \<in> set templates" and wf: "\<forall>t\<in>set templates. distinct (map fst (Words t))"
  proof -
    have ne: "templates \<noteq> []" using mem by auto
    have nz: "\<forall>t\<in>set templates. ?w \<noteq> [] \<or> Words t \<noteq> []" using w by simp
    obtain i where i: "i < length templates"
      and sc: "MatchResult.Score (matchTemplates rng u T templates) =
                 Fin (dice (vocabulary ?w) (vocabulary (Words (templates ! i))))"
      and mx: "\<forall>j<length templates.
                 dice (vocabulary ?w) (vocabulary (Words (templates ! j)))
                 \<le> dice (vocabulary ?w) (vocabulary (Words (templates ! i)))"
      using matchTemplates_best [OF rng ne wf nz] by blast
    obtain k where k: "k < length templates" "templates ! k = ?self"
      using mem by (auto simp: in_set_conv_nth)
    have "1 \<le> dice (vocabulary ?w) (vocabulary (Words (templates ! i)))"
      using mx k one by (metis)
    moreover have "dice (vocabulary ?w) (vocabulary (Words (templates ! i))) \<le> 1"
      by (rule dice_le_one) (rule fin)+
    ultimately show ?thesis using sc by simp
  qed
  then show ?thesis using s by blast
qed

theorem self_similarity_witness:
  "scoreOf rev (makeWordSet (\<lambda>data. data) ''The MIT License'') (templateOf (\<lambda>data. data) ''MIT License'' ''MIT'' ''The MIT License'')
   = Fin 1 \<and>
   MatchResult.Score
     (matchTemplates rev (\<lambda>data. data) ''The MIT License''
        [templateOf (\<lambda>data. data) ''Apache'' ''a'' ''apache license'',
         templateOf (\<lambda>data. data) ''MIT License'' ''MIT'' ''The MIT License'']) = Fin 1"
proof -
  let ?ts = "[templateOf (\<lambda>data. data) ''Apache'' ''a'' ''apache license'',
         templateOf (\<lambda>data. data) ''MIT License'' ''MIT'' ''The MIT License'']"
  have rng: "\<forall>xs :: (string \<times> nat) list. mset (rev xs) = mset xs" by simp
  have w: "makeWordSet (\<lambda>data. data) ''The MIT License'' \<noteq> []" by code_simp
  have mem: "templateOf (\<lambda>data. data) ''MIT License'' ''MIT'' ''The MIT License'' \<in> set ?ts" by simp
  have wf: "\<forall>t\<in>set ?ts. distinct (map fst (Words t))"
    by (simp add: templateOf_def makeWordSet_distinct)
  show ?thesis
    using self_similarity [OF rng w, of "''MIT License''" "''MIT''" ?ts] mem wf by blast
qed

text \<open>
  C8, as stated, fails for a text without words: a text that is one copyright line is
  normalized to nothing, its own template has no words either, and its score is \<open>0/0\<close>,
  whatever the Unicode map \<open>u\<close> is.
\<close>

theorem self_similarity_fails_without_words:
  "\<forall>u.
   scoreOf (\<lambda>words. words) (makeWordSet u ''Copyright 2013 Ben Johnson'')
     (templateOf u ''T'' ''t'' ''Copyright 2013 Ben Johnson'') = NaN \<and>
   MatchResult.Score
     (matchTemplates (\<lambda>words. words) u ''Copyright 2013 Ben Johnson''
        [templateOf u ''T'' ''t'' ''Copyright 2013 Ben Johnson'']) = Fin (- 1)"
  by (rule allI) code_simp

section \<open>Grouping keeps one entry for each project name\<close>











section \<open>Copyright notices and the pattern that removes them\<close>


































lemma lift_case:
  "(case lift X Z a of Some r \<Rightarrow> Some r | None \<Rightarrow> lift X Z b) =
   lift X Z (case a of Some r \<Rightarrow> Some r | None \<Rightarrow> b)"
  by (simp add: lift_def split: option.splits)











end
